theory Spec2Isabelle
  imports Main "HOL-Library.Sublist"
begin

section \<open>Python values used by script.py\<close>

text \<open>
  The launcher is one Python module, \<^verbatim>\<open>script.py\<close>. Its strings are modelled as
  \<^typ>\<open>string\<close>, every \<^typ>\<open>char\<close> standing for the code point of the same number
  (so the model covers the text whose code points are below 256). Python integers are
  \<^typ>\<open>int\<close>. An exception is a value of \<open>py_error\<close>; a function that can raise
  returns \<open>py_error + 'a\<close>.
\<close>

datatype py_error = IndexError | ZeroDivisionError | ValueError string | RuntimeError

text \<open>\<^verbatim>\<open>str(e)\<close>, as the f-string of \<^verbatim>\<open>launch\<close> prints a caught exception.\<close>

fun str_of_error :: "py_error \<Rightarrow> string" where
  "str_of_error IndexError = ''list index out of range''"
| "str_of_error ZeroDivisionError = ''integer modulo by zero''"
| "str_of_error (ValueError msg) = msg"
| "str_of_error RuntimeError = ''asyncio.run() cannot be called from a running event loop''"

text \<open>
  \<^verbatim>\<open>str.isspace\<close> on one character: below 256 the white space of Python is
  0x09-0x0D, 0x1C-0x1F, 0x20, 0x85 and 0xA0.
\<close>

definition isspace :: "char \<Rightarrow> bool" where
  "isspace c =
     (let n = (of_char c :: nat)
      in (9 \<le> n \<and> n \<le> 13) \<or> (28 \<le> n \<and> n \<le> 32) \<or> n = 133 \<or> n = 160)"

text \<open>\<^verbatim>\<open>str.strip()\<close>: leading and trailing white space removed.\<close>

definition strip :: "string \<Rightarrow> string" where
  "strip s = rev (dropWhile isspace (rev (dropWhile isspace s)))"

text \<open>
  \<^verbatim>\<open>str.lower()\<close>: below 256 the characters with a different lower case are A-Z
  (0x41-0x5A) and 0xC0-0xDE without 0xD7; each maps to the code point 32 above it.
\<close>

definition lower_char :: "char \<Rightarrow> char" where
  "lower_char c =
     (let n = (of_char c :: nat)
      in if (65 \<le> n \<and> n \<le> 90) \<or> (192 \<le> n \<and> n \<le> 222 \<and> n \<noteq> 215)
         then char_of (n + 32) else c)"

definition lower :: "string \<Rightarrow> string" where
  "lower s = map lower_char s"

text \<open>\<^verbatim>\<open>s.startswith(p)\<close>.\<close>

definition startswith :: "string \<Rightarrow> string \<Rightarrow> bool" where
  "startswith s p = (take (length p) s = p)"

text \<open>\<^verbatim>\<open>t in s\<close> on strings: \<open>t\<close> occurs in \<open>s\<close> as a contiguous run.\<close>

fun str_contains :: "string \<Rightarrow> string \<Rightarrow> bool" where
  "str_contains t [] = (t = [])"
| "str_contains t (c # cs) = (startswith (c # cs) t \<or> str_contains t cs)"

text \<open>
  \<^verbatim>\<open>xs[i]\<close> on a list: a negative index counts from the end, an index out of range
  raises IndexError.
\<close>

definition getitem :: "'a list \<Rightarrow> int \<Rightarrow> py_error + 'a" where
  "getitem xs i =
     (let n = int (length xs); j = (if i < 0 then i + n else i)
      in if 0 \<le> j \<and> j < n then Inr (xs ! nat j) else Inl IndexError)"

text \<open>\<^verbatim>\<open>a % b\<close> on integers: the sign of the divisor, ZeroDivisionError on 0.\<close>

definition py_mod :: "int \<Rightarrow> int \<Rightarrow> py_error + int" where
  "py_mod a b = (if b = 0 then Inl ZeroDivisionError else Inr (a mod b))"

text \<open>The truth value of an optional string: None and the empty string are false.\<close>

fun truthy :: "string option \<Rightarrow> bool" where
  "truthy None = False"
| "truthy (Some s) = (s \<noteq> [])"

section \<open>shlex.split\<close>

text \<open>
  \<^verbatim>\<open>clean_exec_cmd\<close> calls \<^verbatim>\<open>shlex.split(exec_cmd)\<close> of the standard library:
  a lexer in POSIX mode with \<^verbatim>\<open>whitespace_split = True\<close>, no comment characters
  and no punctuation characters. The lexer's \<^verbatim>\<open>state\<close> is \<^verbatim>\<open>None\<close> at the end
  of the input, \<^verbatim>\<open>' '\<close> between tokens, \<^verbatim>\<open>'a'\<close> inside a word, a quote
  character inside a quotation and the escape character after a backslash.
\<close>

datatype lex_state =
  No_state | Whitespace_state | Word_state | Quote_state char | Escape_state char

definition whitespace :: string where
  "whitespace = [CHR 0x20, CHR 0x09, CHR 0x0D, CHR 0x0A]"

definition quotes :: string where
  "quotes = [CHR 0x27, CHR 0x22]"

definition escape :: string where
  "escape = [CHR 0x5C]"

definition escapedquotes :: string where
  "escapedquotes = [CHR 0x22]"

text \<open>
  The \<^verbatim>\<open>while True\<close> loop of \<^verbatim>\<open>shlex.read_token\<close>, one character of the input
  per round. The arguments are \<^verbatim>\<open>self.state\<close>, \<^verbatim>\<open>quoted\<close>,
  \<^verbatim>\<open>escapedstate\<close>, \<^verbatim>\<open>self.token\<close> and the unread input; a \<^verbatim>\<open>break\<close>
  returns the state, \<^verbatim>\<open>quoted\<close>, the token and the input left. With
  \<^verbatim>\<open>whitespace_split\<close> set, every character that is no white space, escape or
  quote starts or extends a word, so the branches on \<^verbatim>\<open>wordchars\<close> and on
  \<^verbatim>\<open>whitespace_split\<close> are one branch here; the branches on the empty
  \<^verbatim>\<open>commenters\<close> and \<^verbatim>\<open>punctuation_chars\<close> are never taken.
\<close>

fun read_loop ::
  "lex_state \<Rightarrow> bool \<Rightarrow> lex_state \<Rightarrow> string \<Rightarrow> string \<Rightarrow>
   py_error + (lex_state \<times> bool \<times> string \<times> string)" where
  "read_loop No_state quoted esc tok inp = Inr (No_state, quoted, [], drop 1 inp)"
| "read_loop Whitespace_state quoted esc tok [] = Inr (No_state, quoted, tok, [])"
| "read_loop Whitespace_state quoted esc tok (c # cs) =
     (if c \<in> set whitespace then
        (if tok \<noteq> [] \<or> quoted then Inr (Whitespace_state, quoted, tok, cs)
         else read_loop Whitespace_state quoted esc tok cs)
      else if c \<in> set escape then read_loop (Escape_state c) quoted Word_state tok cs
      else if c \<in> set quotes then read_loop (Quote_state c) quoted esc tok cs
      else read_loop Word_state quoted esc [c] cs)"
| "read_loop (Quote_state q) quoted esc tok [] = Inl (ValueError ''No closing quotation'')"
| "read_loop (Quote_state q) quoted esc tok (c # cs) =
     (if c = q then read_loop Word_state True esc tok cs
      else if c \<in> set escape \<and> q \<in> set escapedquotes
        then read_loop (Escape_state c) True (Quote_state q) tok cs
      else read_loop (Quote_state q) True esc (tok @ [c]) cs)"
| "read_loop (Escape_state e) quoted esc tok [] = Inl (ValueError ''No escaped character'')"
| "read_loop (Escape_state e) quoted esc tok (c # cs) =
     read_loop esc quoted esc
       ((case esc of
           Quote_state q \<Rightarrow> if c \<noteq> e \<and> c \<noteq> q then tok @ [e] else tok
         | _ \<Rightarrow> tok) @ [c]) cs"
| "read_loop Word_state quoted esc tok [] = Inr (No_state, quoted, tok, [])"
| "read_loop Word_state quoted esc tok (c # cs) =
     (if c \<in> set whitespace then
        (if tok \<noteq> [] \<or> quoted then Inr (Whitespace_state, quoted, tok, cs)
         else read_loop Whitespace_state quoted esc tok cs)
      else if c \<in> set quotes then read_loop (Quote_state c) quoted esc tok cs
      else if c \<in> set escape then read_loop (Escape_state c) quoted Word_state tok cs
      else read_loop Word_state quoted esc (tok @ [c]) cs)"

text \<open>
  \<^verbatim>\<open>shlex.read_token\<close>: \<^verbatim>\<open>quoted\<close> starts false, \<^verbatim>\<open>escapedstate\<close> as
  \<^verbatim>\<open>' '\<close>, the token empty; in POSIX mode an empty token that was not quoted is
  \<^verbatim>\<open>None\<close>, the end of the tokens.
\<close>

definition read_token ::
  "lex_state \<Rightarrow> string \<Rightarrow> py_error + (string option \<times> lex_state \<times> string)" where
  "read_token st inp =
     (case read_loop st False Whitespace_state [] inp of
        Inl e \<Rightarrow> Inl e
      | Inr (st', quoted, tok, rest) \<Rightarrow>
          Inr (if \<not> quoted \<and> tok = [] then None else Some tok, st', rest))"

text \<open>
  Every token that \<open>read_token\<close> returns was read from the input, so iterating it
  ends: the two lemmas below bound the input that a call leaves unread.
\<close>

lemma read_loop_length_le:
  "read_loop st q e tok inp = Inr (st', q', tok', rest) \<Longrightarrow> length rest \<le> length inp"
  by (induction st q e tok inp rule: read_loop.induct) (auto split: if_splits)

lemma read_loop_length_less:
  assumes "read_loop st False e [] inp = Inr (st', q', tok', rest)" and "q' \<or> tok' \<noteq> []"
  shows "length rest < length inp"
proof (cases inp)
  case Nil
  with assms show ?thesis by (cases st) auto
next
  case (Cons c cs)
  with assms show ?thesis
    by (cases st) (auto split: if_splits dest: read_loop_length_le)
qed

lemma read_token_length_less:
  "read_token st inp = Inr (Some t, st', rest) \<Longrightarrow> length rest < length inp"
  unfolding read_token_def
  by (auto split: sum.splits prod.splits if_splits dest: read_loop_length_less)

text \<open>
  \<^verbatim>\<open>list(lex)\<close>: the lexer is iterated, each \<^verbatim>\<open>__next__\<close> one
  \<^verbatim>\<open>read_token\<close>, until it returns \<^verbatim>\<open>None\<close>; an exception of
  \<^verbatim>\<open>read_token\<close> leaves the iteration.
\<close>

function tokens :: "lex_state \<Rightarrow> string \<Rightarrow> py_error + string list" where
  "tokens st inp =
     (case read_token st inp of
        Inl e \<Rightarrow> Inl e
      | Inr (None, st', rest) \<Rightarrow> Inr []
      | Inr (Some t, st', rest) \<Rightarrow>
          (case tokens st' rest of Inl e \<Rightarrow> Inl e | Inr ts \<Rightarrow> Inr (t # ts)))"
  by pat_completeness auto
termination
  by (relation "measure (\<lambda>(st, inp). length inp)") (auto dest: read_token_length_less)

text \<open>\<^verbatim>\<open>shlex.split(s)\<close>: the lexer starts in the state \<^verbatim>\<open>' '\<close>.\<close>

definition shlex_split :: "string \<Rightarrow> py_error + string list" where
  "shlex_split s = tokens Whitespace_state s"

section \<open>Helpers of script.py\<close>

text \<open>
  \<^verbatim>\<open>
  def clean_exec_cmd(exec_cmd):
      return [arg for arg in shlex.split(exec_cmd) if not arg.startswith("%")]
  \<close>
\<close>

definition clean_exec_cmd :: "string \<Rightarrow> py_error + string list" where
  "clean_exec_cmd exec_cmd =
     (case shlex_split exec_cmd of
        Inl e \<Rightarrow> Inl e
      | Inr args \<Rightarrow> Inr (filter (\<lambda>arg. \<not> startswith arg ''%'') args))"

text \<open>
  A parsed descriptor file: \<open>config section option\<close> is the value that
  \<^verbatim>\<open>config.get(section, option)\<close> finds, \<open>None\<close> where the section or the option
  is missing, so that \<^verbatim>\<open>get\<close> returns its fallback. The fallback is
  \<^verbatim>\<open>None\<close> for Name and Exec and the string \<^verbatim>\<open>"false"\<close> for Terminal and
  NoDisplay.
\<close>

type_synonym config = "string \<Rightarrow> string \<Rightarrow> string option"

definition config_get :: "config \<Rightarrow> string \<Rightarrow> string \<Rightarrow> string option" where
  "config_get config section option = config section option"

definition config_get_fallback :: "config \<Rightarrow> string \<Rightarrow> string \<Rightarrow> string \<Rightarrow> string" where
  "config_get_fallback config section option fallback =
     (case config section option of None \<Rightarrow> fallback | Some v \<Rightarrow> v)"

definition endswith :: "string \<Rightarrow> string \<Rightarrow> bool" where
  "endswith s p = (drop (length s - length p) s = p)"

text \<open>
  One entry of \<^verbatim>\<open>os.listdir(directory)\<close>: the file's name and what reading it
  gives, \<open>None\<close> when \<^verbatim>\<open>config.read\<close> or a \<^verbatim>\<open>config.get\<close> raises (the
  \<^verbatim>\<open>except Exception: continue\<close> of the loop). A directory is its listing, and
  \<open>None\<close> where \<^verbatim>\<open>os.path.exists\<close> is false.
\<close>

type_synonym desktop_file = "string \<times> config option"
type_synonym directory = "desktop_file list option"
type_synonym apps = "(string \<times> string) list"

text \<open>The body of the inner loop of \<^verbatim>\<open>list_apps\<close>, for one file name.\<close>

definition scan_file :: "desktop_file \<Rightarrow> apps \<Rightarrow> apps" where
  "scan_file file apps =
     (if endswith (fst file) ''.desktop'' then
        (case snd file of
           None \<Rightarrow> apps
         | Some config \<Rightarrow>
             (let entry = config_get config ''Desktop Entry'' ''Name'';
                  exec_cmd = config_get config ''Desktop Entry'' ''Exec'';
                  terminal =
                    (lower (config_get_fallback config ''Desktop Entry'' ''Terminal'' ''false'')
                       = ''true'');
                  no_display =
                    (lower (config_get_fallback config ''Desktop Entry'' ''NoDisplay'' ''false'')
                       = ''true'')
              in if truthy entry \<and> truthy exec_cmd \<and> \<not> no_display
                 then apps @ [(the entry, the exec_cmd)] else apps))
      else apps)"

text \<open>
  \<^verbatim>\<open>list_apps\<close>: the two directories of \<^verbatim>\<open>dirs\<close> in order, the system one
  and the user's; the arguments are what the file system holds at the two paths.
\<close>

definition list_apps :: "directory \<Rightarrow> directory \<Rightarrow> apps" where
  "list_apps system_dir user_dir =
     fold (\<lambda>directory apps.
             case directory of None \<Rightarrow> apps | Some files \<Rightarrow> fold scan_file files apps)
       [system_dir, user_dir] []"

section \<open>The session: module state and key bindings\<close>

text \<open>
  The module's globals are the fields of a record: \<^verbatim>\<open>all_app_names\<close> and
  \<^verbatim>\<open>app_dict\<close> (never assigned after the start), \<^verbatim>\<open>search_box.text\<close>,
  \<^verbatim>\<open>filtered_apps\<close> and \<^verbatim>\<open>focus_index[0]\<close>. The calls that leave the module
  (the process spawn, the redraws) are appended to \<open>effects\<close> in the order they
  are made.
\<close>

datatype effect =
  Popen "string list" | Rebuild_rows | Focus_search_box | Invalidate

record session =
  all_app_names :: "string list"
  app_dict :: "string \<rightharpoonup> string"
  search_text :: string
  filtered_apps :: "string list"
  focus_index :: int
  effects :: "effect list"

text \<open>
  The state after the module is loaded: \<^verbatim>\<open>all_app_names = [a[0] for a in apps]\<close>,
  \<^verbatim>\<open>app_dict = {name: cmd for name, cmd in apps}\<close> (a later pair replaces an earlier
  one of the same name), \<^verbatim>\<open>filtered_apps = all_app_names.copy()\<close>,
  \<^verbatim>\<open>focus_index = [0]\<close>.
\<close>

definition start :: "apps \<Rightarrow> session" where
  "start apps =
     \<lparr>all_app_names = map fst apps,
      app_dict = fold (\<lambda>(name, cmd) d. d(name \<mapsto> cmd)) apps Map.empty,
      search_text = [],
      filtered_apps = map fst apps,
      focus_index = 0,
      effects = []\<rparr>"

definition emit :: "effect \<Rightarrow> session \<Rightarrow> session" where
  "emit e s = s\<lparr>effects := effects s @ [e]\<rparr>"

text \<open>
  \<^verbatim>\<open>
  def show_error(msg):
      message_dialog(title="Error", text=msg).run()
  \<close>
  \<^verbatim>\<open>message_dialog\<close> builds an application and \<^verbatim>\<open>run()\<close> starts it with
  \<^verbatim>\<open>asyncio.run\<close>, which raises RuntimeError when an event loop is already
  running. The only caller is \<^verbatim>\<open>launch\<close>, a key handler that the launcher's own
  running loop calls: no dialog is drawn and the RuntimeError leaves
  \<^verbatim>\<open>show_error\<close>. A function that can raise after changing the globals returns the
  exception, if any, with the globals as it leaves them.
\<close>

definition show_error :: "string \<Rightarrow> session \<Rightarrow> py_error option \<times> session" where
  "show_error msg s = (Some RuntimeError, s)"

text \<open>
  \<^verbatim>\<open>
  def set_focus(idx):
      if filtered_apps:
          focus_index[0] = min(max(idx, 0), len(filtered_apps) - 1)
  \<close>
\<close>

definition set_focus :: "int \<Rightarrow> session \<Rightarrow> session" where
  "set_focus idx s =
     (if filtered_apps s \<noteq> []
      then s\<lparr>focus_index := min (max idx 0) (int (length (filtered_apps s)) - 1)\<rparr>
      else s)"

text \<open>\<^verbatim>\<open>rebuild_rows\<close> draws the rows again from the state; only the call is recorded.\<close>

definition rebuild_rows :: "session \<Rightarrow> session" where
  "rebuild_rows s = emit Rebuild_rows s"

text \<open>
  \<^verbatim>\<open>
  def on_search_change(_buf):
      text = search_box.text.strip().lower()
      filtered_apps[:] = [a for a in all_app_names if text in a.lower()]
      set_focus(0)
      rebuild_rows()
      get_app().layout.focus(search_box)
  \<close>
\<close>

definition on_search_change :: "session \<Rightarrow> session" where
  "on_search_change s =
     (let text = lower (strip (search_text s));
          s1 = s\<lparr>filtered_apps := filter (\<lambda>a. str_contains text (lower a)) (all_app_names s)\<rparr>;
          s2 = set_focus 0 s1;
          s3 = rebuild_rows s2
      in emit Focus_search_box s3)"

text \<open>
  An assignment to \<^verbatim>\<open>search_box.text\<close>, by the user's typing or by \<^verbatim>\<open>launch\<close>:
  the buffer fires \<^verbatim>\<open>on_text_changed\<close>, to which the module subscribes
  \<^verbatim>\<open>on_search_change\<close>, when the new text differs from the old one.
\<close>

definition set_text :: "string \<Rightarrow> session \<Rightarrow> session" where
  "set_text v s =
     (if v \<noteq> search_text s then on_search_change (s\<lparr>search_text := v\<rparr>) else s)"

text \<open>
  \<^verbatim>\<open>
  def move_up(event):
      if filtered_apps:
          set_focus((focus_index[0] - 1) % len(filtered_apps))
          rebuild_rows()
  \<close>
  and \<^verbatim>\<open>move_down\<close> with \<^verbatim>\<open>+ 1\<close>.
\<close>

definition move_up :: "session \<Rightarrow> py_error + session" where
  "move_up s =
     (if filtered_apps s \<noteq> [] then
        (case py_mod (focus_index s - 1) (int (length (filtered_apps s))) of
           Inl e \<Rightarrow> Inl e
         | Inr idx \<Rightarrow> Inr (rebuild_rows (set_focus idx s)))
      else Inr s)"

definition move_down :: "session \<Rightarrow> py_error + session" where
  "move_down s =
     (if filtered_apps s \<noteq> [] then
        (case py_mod (focus_index s + 1) (int (length (filtered_apps s))) of
           Inl e \<Rightarrow> Inl e
         | Inr idx \<Rightarrow> Inr (rebuild_rows (set_focus idx s)))
      else Inr s)"

text \<open>
  The process spawn is outside the module: \<open>popen argv\<close> is \<open>None\<close> when
  \<^verbatim>\<open>subprocess.Popen(argv, start_new_session=True)\<close> returns and \<open>Some msg\<close> when it
  raises an exception \<open>e\<close> with \<^verbatim>\<open>str(e) = msg\<close>.
\<close>

type_synonym popen = "string list \<Rightarrow> string option"

text \<open>The f-string \<^verbatim>\<open>f"Error launching {name}:\n{e}"\<close>.\<close>

definition error_text :: "string \<Rightarrow> string \<Rightarrow> string" where
  "error_text name msg = ''Error launching '' @ name @ '':'' @ [CHR 0x0A] @ msg"

text \<open>
  \<^verbatim>\<open>
  def launch(event):
      if filtered_apps:
          name = filtered_apps[focus_index[0]]
          cmd = app_dict.get(name)
          if cmd:
              try:
                  subprocess.Popen(clean_exec_cmd(cmd), start_new_session=True)
              except Exception as e:
                  show_error(f"Error launching {name}:\n{e}")
          search_box.text = ""
          filtered_apps[:] = all_app_names
          set_focus(0)
          rebuild_rows()
          get_app().layout.focus(search_box)
          event.app.invalidate()
  \<close>
  The index expression is outside the \<^verbatim>\<open>try\<close>: its IndexError leaves the handler.
  Inside the \<^verbatim>\<open>try\<close>, \<^verbatim>\<open>clean_exec_cmd\<close> is evaluated before \<^verbatim>\<open>Popen\<close> is
  called, so on its ValueError nothing is spawned. Both exceptions reach the
  \<^verbatim>\<open>except\<close> block, whose \<^verbatim>\<open>show_error\<close> raises in turn: that exception leaves
  the handler before the lines of the reset are run.

  \<open>launch_body\<close> is the body of the handler: the exception that leaves it, if any, and
  the globals at that moment. \<open>launch\<close> is its result as a handler's: the state it
  returns with, or the exception.
\<close>

definition launch_body :: "popen \<Rightarrow> session \<Rightarrow> py_error option \<times> session" where
  "launch_body popen s =
     (if filtered_apps s \<noteq> [] then
        (case getitem (filtered_apps s) (focus_index s) of
           Inl e \<Rightarrow> (Some e, s)
         | Inr name \<Rightarrow>
             (let cmd = app_dict s name;
                  attempt =
                    (if truthy cmd then
                       (case clean_exec_cmd (the cmd) of
                          Inl e \<Rightarrow> show_error (error_text name (str_of_error e)) s
                        | Inr argv \<Rightarrow>
                            (case popen argv of
                               None \<Rightarrow> (None, emit (Popen argv) s)
                             | Some msg \<Rightarrow>
                                 show_error (error_text name msg) (emit (Popen argv) s)))
                     else (None, s))
              in (case attempt of
                    (Some e, s1) \<Rightarrow> (Some e, s1)
                  | (None, s1) \<Rightarrow>
                      (let s2 = set_text [] s1;
                           s3 = s2\<lparr>filtered_apps := all_app_names s2\<rparr>;
                           s4 = set_focus 0 s3;
                           s5 = rebuild_rows s4
                       in (None, emit Invalidate (emit Focus_search_box s5))))))
      else (None, s))"

definition launch :: "popen \<Rightarrow> session \<Rightarrow> py_error + session" where
  "launch popen s =
     (case launch_body popen s of (None, s') \<Rightarrow> Inr s' | (Some e, s') \<Rightarrow> Inl e)"

text \<open>
  The events of the terminal interface that reach these handlers: the bound keys, and
  a change of the query box's text to a given string.
\<close>

datatype event = Key_up | Key_down | Key_enter | Text_input string

fun handle :: "popen \<Rightarrow> event \<Rightarrow> session \<Rightarrow> py_error + session" where
  "handle popen Key_up s = move_up s"
| "handle popen Key_down s = move_down s"
| "handle popen Key_enter s = launch popen s"
| "handle popen (Text_input v) s = Inr (set_text v s)"

text \<open>
  The states of a run: the start state of an index, and every state that a handler
  returns from one of them.
\<close>

inductive reachable :: "popen \<Rightarrow> apps \<Rightarrow> session \<Rightarrow> bool" for popen apps where
  reachable_start: "reachable popen apps (start apps)"
| reachable_step:
    "reachable popen apps s \<Longrightarrow> handle popen ev s = Inr s' \<Longrightarrow> reachable popen apps s'"

text \<open>Applying a handler \<open>n\<close> times, stopping at the first exception.\<close>

fun repeat :: "nat \<Rightarrow> (session \<Rightarrow> py_error + session) \<Rightarrow> session \<Rightarrow> py_error + session" where
  "repeat 0 f s = Inr s"
| "repeat (Suc n) f s = (case f s of Inl e \<Rightarrow> Inl e | Inr s' \<Rightarrow> repeat n f s')"

text \<open>
  The range of the focus index as the specification states it: in
  \<open>[0, len(visible_names) - 1]\<close> whenever the visible list is not empty.
\<close>

definition focus_in_range :: "session \<Rightarrow> bool" where
  "focus_in_range s =
     (filtered_apps s = [] \<or>
      (0 \<le> focus_index s \<and> focus_index s < int (length (filtered_apps s))))"

text \<open>
  The \<^verbatim>\<open>if cmd:\<close> block of \<open>launch\<close> for the command found: whether an exception
  leaves it (the tokenizer or the spawn raises, and then \<open>show_error\<close>), and the calls
  it appends to \<open>effects\<close>; then the calls of the reset.
\<close>

definition attempt_raises :: "popen \<Rightarrow> string option \<Rightarrow> bool" where
  "attempt_raises popen cmd =
     (truthy cmd \<and>
      (case clean_exec_cmd (the cmd) of
         Inl e \<Rightarrow> True
       | Inr argv \<Rightarrow> popen argv \<noteq> None))"

definition attempt_effects :: "string option \<Rightarrow> effect list" where
  "attempt_effects cmd =
     (if truthy cmd then
        (case clean_exec_cmd (the cmd) of
           Inl e \<Rightarrow> []
         | Inr argv \<Rightarrow> [Popen argv])
      else [])"

definition reset_effects :: "session \<Rightarrow> effect list" where
  "reset_effects s =
     (if search_text s = [] then [] else [Rebuild_rows, Focus_search_box])
       @ [Rebuild_rows, Focus_search_box, Invalidate]"

section \<open>Sample inputs\<close>

text \<open>
  Concrete inputs for the closed theorems below: an index of two applications, and the
  session in which the user has typed a query that no name matches.
\<close>

definition sample_apps :: apps where
  "sample_apps = [(''Firefox'', ''firefox %u''), (''VLC'', ''vlc --started-from-file %U'')]"

definition no_match_session :: session where
  "no_match_session = set_text ''zzz'' (start sample_apps)"

text \<open>
  Two process-spawn collaborators: one that starts every argument vector but the empty
  one, for which it raises as \<^verbatim>\<open>Popen\<close> does on \<^verbatim>\<open>args[0]\<close>, and one that
  refuses every argument vector.
\<close>

definition popen_posix :: popen where
  "popen_posix argv = (if argv = [] then Some ''list index out of range'' else None)"

definition popen_denied :: popen where
  "popen_denied argv = Some ''[Errno 13] Permission denied''"

text \<open>
  The session after one Down from the start (the focus on the second row), and the one
  after the user then types \<open>fire\<close>.
\<close>

definition moved_session :: session where
  "moved_session = (start sample_apps)\<lparr>focus_index := 1, effects := [Rebuild_rows]\<rparr>"

definition fire_session :: session where
  "fire_session = set_text ''fire'' moved_session"

text \<open>An index whose only command is a field code.\<close>

definition field_code_apps :: apps where
  "field_code_apps = [(''Viewer'', ''%U'')]"

text \<open>
  Descriptor files: the configuration whose only section is \<open>[Desktop Entry]\<close> with
  the given keys, and a directory of three descriptors, the last with \<open>Exec=\<close> and
  nothing after it.
\<close>

definition desktop_entry :: "(string \<times> string) list \<Rightarrow> config" where
  "desktop_entry keys section option =
     (if section = ''Desktop Entry'' then map_of keys option else None)"

definition firefox_config :: config where
  "firefox_config = desktop_entry [(''Name'', ''Firefox''), (''Exec'', ''firefox %u'')]"

definition calculator_config :: config where
  "calculator_config =
     desktop_entry
       [(''Name'', ''Calculator''), (''Exec'', ''gnome-calculator''), (''NoDisplay'', ''true'')]"

definition editor_config :: config where
  "editor_config = desktop_entry [(''Name'', ''Editor''), (''Exec'', [])]"

definition scenario_dir :: directory where
  "scenario_dir =
     Some [(''firefox.desktop'', Some firefox_config),
           (''calculator.desktop'', Some calculator_config),
           (''editor.desktop'', Some editor_config)]"

section \<open>The command sanitizer\<close>

lemma startswith_prefix: "startswith s p = prefix p s"
proof
  assume "startswith s p"
  then have "take (length p) s = p" by (simp add: startswith_def)
  then have "s = p @ drop (length p) s" by (metis append_take_drop_id)
  then show "prefix p s" by (metis prefixI)
next
  assume "prefix p s"
  then obtain zs where "s = p @ zs" by (auto simp: prefix_def)
  then show "startswith s p" by (simp add: startswith_def)
qed

text \<open>
  Claim C8. \<open>clean_exec_cmd\<close> splits the raw command with \<open>shlex_split\<close> and keeps, in
  their order, exactly the tokens that do not begin with the character \<open>%\<close> (an
  exception of the tokenizer is passed on). On \<open>app %U --flag %f\<close> the tokenizer yields
  four tokens and the sanitizer \<open>[app, --flag]\<close>; \<open>app\<close> yields \<open>[app]\<close>; the empty
  command yields the empty sequence.
\<close>

theorem clean_exec_cmd_drops_field_codes:
  "clean_exec_cmd raw =
     (case shlex_split raw of
        Inl e \<Rightarrow> Inl e
      | Inr toks \<Rightarrow> Inr (filter (\<lambda>t. \<not> prefix ''%'' t) toks))
   \<and> shlex_split ''app %U --flag %f'' = Inr [''app'', ''%U'', ''--flag'', ''%f'']
   \<and> clean_exec_cmd ''app %U --flag %f'' = Inr [''app'', ''--flag'']
   \<and> clean_exec_cmd ''app'' = Inr [''app'']
   \<and> clean_exec_cmd [] = Inr []"
proof -
  have "clean_exec_cmd raw =
     (case shlex_split raw of
        Inl e \<Rightarrow> Inl e
      | Inr toks \<Rightarrow> Inr (filter (\<lambda>t. \<not> prefix ''%'' t) toks))"
    by (simp add: clean_exec_cmd_def startswith_prefix split: sum.splits)
  moreover have "shlex_split ''app %U --flag %f'' = Inr [''app'', ''%U'', ''--flag'', ''%f'']"
    by code_simp
  moreover have "clean_exec_cmd ''app %U --flag %f'' = Inr [''app'', ''--flag'']"
    by code_simp
  moreover have "clean_exec_cmd ''app'' = Inr [''app'']"
    by code_simp
  moreover have "clean_exec_cmd [] = Inr []"
    by code_simp
  ultimately show ?thesis by blast
qed

section \<open>Navigation\<close>

lemma move_down_step:
  assumes "filtered_apps s \<noteq> []"
  shows "move_down s =
    Inr (s\<lparr>focus_index := (focus_index s + 1) mod int (length (filtered_apps s)),
           effects := effects s @ [Rebuild_rows]\<rparr>)"
proof -
  let ?n = "int (length (filtered_apps s))"
  have n: "0 < ?n" using assms by simp
  have "0 \<le> (focus_index s + 1) mod ?n" "(focus_index s + 1) mod ?n < ?n"
    using n by simp_all
  then have "min (max ((focus_index s + 1) mod ?n) 0) (?n - 1) = (focus_index s + 1) mod ?n"
    by linarith
  then show ?thesis
    using assms by (simp add: move_down_def py_mod_def set_focus_def rebuild_rows_def emit_def)
qed

lemma move_up_step:
  assumes "filtered_apps s \<noteq> []"
  shows "move_up s =
    Inr (s\<lparr>focus_index := (focus_index s - 1) mod int (length (filtered_apps s)),
           effects := effects s @ [Rebuild_rows]\<rparr>)"
proof -
  let ?n = "int (length (filtered_apps s))"
  have n: "0 < ?n" using assms by simp
  have "0 \<le> (focus_index s - 1) mod ?n" "(focus_index s - 1) mod ?n < ?n"
    using n by simp_all
  then have "min (max ((focus_index s - 1) mod ?n) 0) (?n - 1) = (focus_index s - 1) mod ?n"
    by linarith
  then show ?thesis
    using assms by (simp add: move_up_def py_mod_def set_focus_def rebuild_rows_def emit_def)
qed

lemma repeat_move_down:
  assumes "filtered_apps s \<noteq> []"
    and "0 \<le> focus_index s" and "focus_index s < int (length (filtered_apps s))"
  shows "\<exists>s'. repeat k move_down s = Inr s'
           \<and> filtered_apps s' = filtered_apps s
           \<and> focus_index s' = (focus_index s + int k) mod int (length (filtered_apps s))"
  using assms
proof (induction k arbitrary: s)
  case 0
  then show ?case by simp
next
  case (Suc k)
  let ?n = "int (length (filtered_apps s))"
  let ?s1 = "s\<lparr>focus_index := (focus_index s + 1) mod ?n, effects := effects s @ [Rebuild_rows]\<rparr>"
  have step: "move_down s = Inr ?s1" using Suc.prems(1) by (rule move_down_step)
  have n: "0 < ?n" using Suc.prems(1) by simp
  have ne: "filtered_apps ?s1 \<noteq> []" using Suc.prems(1) by simp
  have lo: "0 \<le> focus_index ?s1" using n by simp
  have hi: "focus_index ?s1 < int (length (filtered_apps ?s1))" using n by simp
  from Suc.IH[OF ne lo hi] obtain s' where s': "repeat k move_down ?s1 = Inr s'"
      "filtered_apps s' = filtered_apps ?s1"
      "focus_index s' = (focus_index ?s1 + int k) mod int (length (filtered_apps ?s1))"
    by auto
  have "((focus_index s + 1) mod ?n + int k) mod ?n = (focus_index s + 1 + int k) mod ?n"
    by (rule mod_add_left_eq)
  then have "((focus_index s + 1) mod ?n + int k) mod ?n = (focus_index s + int (Suc k)) mod ?n"
    by (simp add: add.assoc)
  with s' step show ?case by simp
qed

text \<open>
  Claim C6. With \<open>N > 0\<close> visible names and a focus index in \<open>[0, N-1]\<close>: one
  \<open>move_down\<close> returns with the index \<open>(index + 1) mod N\<close>, one \<open>move_up\<close> with
  \<open>(index - 1) mod N\<close>, neither changes the visible list; \<open>move_down\<close> applied \<open>N\<close>
  times returns to the start index; \<open>move_up\<close> from index 0 yields \<open>N - 1\<close>.
\<close>

theorem focus_wrap:
  assumes "filtered_apps s \<noteq> []"
    and "0 \<le> focus_index s" and "focus_index s < int (length (filtered_apps s))"
  shows "(\<exists>s'. move_down s = Inr s' \<and> filtered_apps s' = filtered_apps s
            \<and> focus_index s' = (focus_index s + 1) mod int (length (filtered_apps s)))
       \<and> (\<exists>s'. move_up s = Inr s' \<and> filtered_apps s' = filtered_apps s
            \<and> focus_index s' = (focus_index s - 1) mod int (length (filtered_apps s)))
       \<and> (\<exists>s'. repeat (length (filtered_apps s)) move_down s = Inr s'
            \<and> filtered_apps s' = filtered_apps s \<and> focus_index s' = focus_index s)
       \<and> (\<exists>s'. move_up (s\<lparr>focus_index := 0\<rparr>) = Inr s'
            \<and> focus_index s' = int (length (filtered_apps s)) - 1)"
proof -
  let ?n = "int (length (filtered_apps s))"
  have down: "\<exists>s'. move_down s = Inr s' \<and> filtered_apps s' = filtered_apps s
            \<and> focus_index s' = (focus_index s + 1) mod ?n"
    using move_down_step[OF assms(1)] by simp
  have up: "\<exists>s'. move_up s = Inr s' \<and> filtered_apps s' = filtered_apps s
            \<and> focus_index s' = (focus_index s - 1) mod ?n"
    using move_up_step[OF assms(1)] by simp
  have "(focus_index s + ?n) mod ?n = focus_index s"
    using assms(2,3) by simp
  with repeat_move_down[OF assms, of "length (filtered_apps s)"]
  have cycle: "\<exists>s'. repeat (length (filtered_apps s)) move_down s = Inr s'
            \<and> filtered_apps s' = filtered_apps s \<and> focus_index s' = focus_index s"
    by auto
  have ne0: "filtered_apps (s\<lparr>focus_index := 0\<rparr>) \<noteq> []" using assms(1) by simp
  have "(0 - 1) mod ?n = ?n - 1"
    using assms(1) by (simp add: zmod_minus1)
  then have top: "\<exists>s'. move_up (s\<lparr>focus_index := 0\<rparr>) = Inr s' \<and> focus_index s' = ?n - 1"
    using move_up_step[OF ne0] by simp
  from down up cycle top show ?thesis by blast
qed

theorem focus_wrap_witness:
  "filtered_apps (start sample_apps) = [''Firefox'', ''VLC'']
   \<and> focus_index (start sample_apps) = 0
   \<and> (\<exists>s'. move_down (start sample_apps) = Inr s' \<and> focus_index s' = 1)
   \<and> (\<exists>s'. move_up (start sample_apps) = Inr s' \<and> focus_index s' = 1)
   \<and> (\<exists>s'. repeat 2 move_down (start sample_apps) = Inr s' \<and> focus_index s' = 0)"
proof -
  have f: "filtered_apps (start sample_apps) = [''Firefox'', ''VLC'']"
    by (simp add: start_def sample_apps_def)
  have i: "focus_index (start sample_apps) = 0"
    by (simp add: start_def)
  have h1: "filtered_apps (start sample_apps) \<noteq> []" using f by simp
  have h2: "0 \<le> focus_index (start sample_apps)" using i by simp
  have h3: "focus_index (start sample_apps) < int (length (filtered_apps (start sample_apps)))"
    using f i by simp
  have l: "length (filtered_apps (start sample_apps)) = 2" using f by simp
  note w = focus_wrap[OF h1 h2 h3, unfolded l]
  from w f i show ?thesis by auto
qed

text \<open>
  Claim C7. While the visible list is empty, \<open>move_up\<close> and \<open>move_down\<close> return
  normally and return the session as it was: the focus index (and everything else) is
  unchanged, and no exception is raised.
\<close>

theorem move_on_empty_list:
  "filtered_apps s = [] \<Longrightarrow> move_up s = Inr s \<and> move_down s = Inr s"
  by (simp add: move_up_def move_down_def)

theorem move_on_empty_list_witness:
  "filtered_apps no_match_session = []
   \<and> move_up no_match_session = Inr no_match_session
   \<and> move_down no_match_session = Inr no_match_session"
proof -
  have h: "filtered_apps no_match_session = []"
    by code_simp
  from move_on_empty_list[OF h] h show ?thesis by simp
qed

section \<open>Launching\<close>

text \<open>
  Claim C10. Enter while the visible list is empty: \<open>launch\<close> returns the session as
  it was. No spawn is requested and nothing is added to \<open>effects\<close>, and the query, the
  visible list and the focus index keep their values.
\<close>

theorem launch_on_empty_list:
  "filtered_apps s = [] \<Longrightarrow> launch popen s = Inr s"
  by (simp add: launch_def launch_body_def)

theorem launch_on_empty_list_witness:
  "filtered_apps no_match_session = []
   \<and> launch popen_posix no_match_session = Inr no_match_session"
proof -
  have h: "filtered_apps no_match_session = []"
    by code_simp
  from launch_on_empty_list[OF h, of popen_posix] h show ?thesis by simp
qed

lemma str_contains_sublist: "str_contains t s = sublist t s"
  by (induction s) (simp_all add: startswith_prefix sublist_Cons_right)

lemma str_contains_empty: "str_contains [] s"
  by (simp add: str_contains_sublist)

lemma strip_empty: "strip [] = []"
  by (simp add: strip_def)

lemma lower_empty: "lower [] = []"
  by (simp add: lower_def)

lemma on_search_change_fields:
  "all_app_names (on_search_change s) = all_app_names s"
  "app_dict (on_search_change s) = app_dict s"
  "search_text (on_search_change s) = search_text s"
  "filtered_apps (on_search_change s) =
     filter (\<lambda>a. str_contains (lower (strip (search_text s))) (lower a)) (all_app_names s)"
  "effects (on_search_change s) = effects s @ [Rebuild_rows, Focus_search_box]"
  by (simp_all add: on_search_change_def Let_def set_focus_def rebuild_rows_def emit_def)

lemma on_search_change_focus:
  "focus_index (on_search_change s) =
     (if filtered_apps (on_search_change s) = [] then focus_index s else 0)"
  by (simp add: on_search_change_def Let_def set_focus_def rebuild_rows_def emit_def)

lemma on_search_change_in_range: "focus_in_range (on_search_change s)"
  by (auto simp: focus_in_range_def on_search_change_focus)

lemma set_text_empty:
  "set_text [] s =
     (if search_text s = [] then s
      else s\<lparr>search_text := [], filtered_apps := all_app_names s,
             focus_index := (if all_app_names s = [] then focus_index s else 0),
             effects := effects s @ [Rebuild_rows, Focus_search_box]\<rparr>)"
  by (simp add: set_text_def on_search_change_def Let_def set_focus_def rebuild_rows_def
      emit_def str_contains_empty strip_empty lower_empty)

lemma reset_chain:
  "(let s2 = set_text [] s1;
        s3 = s2\<lparr>filtered_apps := all_app_names s2\<rparr>;
        s4 = set_focus 0 s3;
        s5 = rebuild_rows s4
    in emit Invalidate (emit Focus_search_box s5)) =
   s1\<lparr>search_text := [],
      filtered_apps := all_app_names s1,
      focus_index := (if all_app_names s1 = [] then focus_index s1 else 0),
      effects := effects s1 @ reset_effects s1\<rparr>"
proof (cases "search_text s1 = []")
  case True
  then show ?thesis
    by (simp add: set_text_empty Let_def set_focus_def rebuild_rows_def emit_def
        reset_effects_def)
next
  case False
  then show ?thesis
    by (simp add: set_text_empty Let_def set_focus_def rebuild_rows_def emit_def
        reset_effects_def)
qed


lemma attempt_outcome:
  "(if truthy cmd then
      (case clean_exec_cmd (the cmd) of
         Inl e \<Rightarrow> show_error (error_text name (str_of_error e)) s
       | Inr argv \<Rightarrow>
           (case popen argv of
              None \<Rightarrow> (None, emit (Popen argv) s)
            | Some msg \<Rightarrow> show_error (error_text name msg) (emit (Popen argv) s)))
    else (None, s)) =
   (if attempt_raises popen cmd then Some RuntimeError else None,
    s\<lparr>effects := effects s @ attempt_effects cmd\<rparr>)"
  by (simp add: attempt_raises_def attempt_effects_def show_error_def emit_def
      split: sum.splits option.splits)

lemma launch_body_result:
  assumes "filtered_apps s \<noteq> []" and "getitem (filtered_apps s) (focus_index s) = Inr name"
  shows "launch_body popen s =
    (if attempt_raises popen (app_dict s name)
     then (Some RuntimeError, s\<lparr>effects := effects s @ attempt_effects (app_dict s name)\<rparr>)
     else (None,
       s\<lparr>search_text := [],
         filtered_apps := all_app_names s,
         focus_index := (if all_app_names s = [] then focus_index s else 0),
         effects := effects s @ attempt_effects (app_dict s name) @ reset_effects s\<rparr>))"
proof -
  let ?s1 = "s\<lparr>effects := effects s @ attempt_effects (app_dict s name)\<rparr>"
  have body: "launch_body popen s =
    (case (if attempt_raises popen (app_dict s name) then Some RuntimeError else None, ?s1) of
       (Some e, s1) \<Rightarrow> (Some e, s1)
     | (None, s1) \<Rightarrow>
         (let s2 = set_text [] s1;
              s3 = s2\<lparr>filtered_apps := all_app_names s2\<rparr>;
              s4 = set_focus 0 s3;
              s5 = rebuild_rows s4
          in (None, emit Invalidate (emit Focus_search_box s5))))"
    unfolding launch_body_def using assms by (simp add: attempt_outcome Let_def)
  show ?thesis
  proof (cases "attempt_raises popen (app_dict s name)")
    case True
    with body show ?thesis by simp
  next
    case False
    with body have "launch_body popen s =
      (None, let s2 = set_text [] ?s1;
              s3 = s2\<lparr>filtered_apps := all_app_names s2\<rparr>;
              s4 = set_focus 0 s3;
              s5 = rebuild_rows s4
          in emit Invalidate (emit Focus_search_box s5))"
      by (simp add: Let_def)
    also have "\<dots> = (None, ?s1\<lparr>search_text := [],
        filtered_apps := all_app_names ?s1,
        focus_index := (if all_app_names ?s1 = [] then focus_index ?s1 else 0),
        effects := effects ?s1 @ reset_effects ?s1\<rparr>)"
      by (simp only: reset_chain)
    finally show ?thesis using False by (simp add: reset_effects_def)
  qed
qed

lemma launch_result:
  assumes "filtered_apps s \<noteq> []" and "getitem (filtered_apps s) (focus_index s) = Inr name"
    and "\<not> attempt_raises popen (app_dict s name)"
  shows "launch popen s =
    Inr (s\<lparr>search_text := [],
           filtered_apps := all_app_names s,
           focus_index := (if all_app_names s = [] then focus_index s else 0),
           effects := effects s @ attempt_effects (app_dict s name) @ reset_effects s\<rparr>)"
  using launch_body_result[OF assms(1,2), of popen] assms(3) by (simp add: launch_def)

lemma launch_raises:
  assumes "filtered_apps s \<noteq> []" and "getitem (filtered_apps s) (focus_index s) = Inr name"
    and "attempt_raises popen (app_dict s name)"
  shows "launch popen s = Inl RuntimeError"
  using launch_body_result[OF assms(1,2), of popen] assms(3) by (simp add: launch_def)

lemma getitem_in_range:
  "0 \<le> i \<Longrightarrow> i < int (length xs) \<Longrightarrow> getitem xs i = Inr (xs ! nat i)"
  by (simp add: getitem_def Let_def)

lemma launch_returns:
  assumes "launch popen s = Inr s'" and "filtered_apps s \<noteq> []"
  shows "\<exists>name. getitem (filtered_apps s) (focus_index s) = Inr name
           \<and> \<not> attempt_raises popen (app_dict s name)
           \<and> s' = s\<lparr>search_text := [],
                  filtered_apps := all_app_names s,
                  focus_index := (if all_app_names s = [] then focus_index s else 0),
                  effects := effects s @ attempt_effects (app_dict s name) @ reset_effects s\<rparr>"
proof (cases "getitem (filtered_apps s) (focus_index s)")
  case (Inl e)
  with assms show ?thesis by (simp add: launch_def launch_body_def)
next
  case (Inr name)
  show ?thesis
  proof (cases "attempt_raises popen (app_dict s name)")
    case True
    from launch_raises[OF assms(2) Inr True] assms(1) show ?thesis by simp
  next
    case False
    from launch_result[OF assms(2) Inr False] assms(1) Inr False show ?thesis by auto
  qed
qed

lemma launch_fields:
  assumes "launch popen s = Inr s'"
  shows "all_app_names s' = all_app_names s" and "app_dict s' = app_dict s"
    and "filtered_apps s \<noteq> [] \<Longrightarrow> filtered_apps s' = all_app_names s \<and> search_text s' = []
         \<and> focus_index s' = (if all_app_names s = [] then focus_index s else 0)"
proof -
  have empty: "s' = s" if "filtered_apps s = []"
    using that assms by (simp add: launch_def launch_body_def)
  show "all_app_names s' = all_app_names s"
    using empty launch_returns[OF assms] by (cases "filtered_apps s = []") auto
  show "app_dict s' = app_dict s"
    using empty launch_returns[OF assms] by (cases "filtered_apps s = []") auto
  show "filtered_apps s' = all_app_names s \<and> search_text s' = []
         \<and> focus_index s' = (if all_app_names s = [] then focus_index s else 0)"
    if "filtered_apps s \<noteq> []"
    using launch_returns[OF assms that] by auto
qed

lemma launch_in_range:
  assumes "launch popen s = Inr s'"
  shows "focus_in_range s'"
proof (cases "filtered_apps s = []")
  case True
  with assms have "s' = s" by (simp add: launch_def launch_body_def)
  with True show ?thesis by (simp add: focus_in_range_def)
next
  case False
  from launch_fields(3)[OF assms False] show ?thesis
    by (auto simp: focus_in_range_def)
qed

lemma move_up_in_range: "move_up s = Inr s' \<Longrightarrow> focus_in_range s'"
proof (cases "filtered_apps s = []")
  case True
  assume "move_up s = Inr s'"
  with True have "s' = s" by (simp add: move_up_def)
  with True show ?thesis by (simp add: focus_in_range_def)
next
  case False
  assume "move_up s = Inr s'"
  with move_up_step[OF False] False show ?thesis
    by (auto simp: focus_in_range_def)
qed

lemma move_down_in_range: "move_down s = Inr s' \<Longrightarrow> focus_in_range s'"
proof (cases "filtered_apps s = []")
  case True
  assume "move_down s = Inr s'"
  with True have "s' = s" by (simp add: move_down_def)
  with True show ?thesis by (simp add: focus_in_range_def)
next
  case False
  assume "move_down s = Inr s'"
  with move_down_step[OF False] False show ?thesis
    by (auto simp: focus_in_range_def)
qed

lemma move_fields:
  "move_up s = Inr s' \<Longrightarrow> all_app_names s' = all_app_names s \<and> filtered_apps s' = filtered_apps s"
  "move_down s = Inr s' \<Longrightarrow> all_app_names s' = all_app_names s \<and> filtered_apps s' = filtered_apps s"
  using move_up_step[of s] move_down_step[of s]
  by (cases "filtered_apps s = []"; auto simp: move_up_def move_down_def)+

lemma set_text_in_range: "focus_in_range s \<Longrightarrow> focus_in_range (set_text v s)"
  by (simp add: set_text_def on_search_change_in_range)

lemma set_text_fields:
  "all_app_names (set_text v s) = all_app_names s"
  "set (filtered_apps s) \<subseteq> set (all_app_names s) \<Longrightarrow>
     set (filtered_apps (set_text v s)) \<subseteq> set (all_app_names s)"
  by (auto simp: set_text_def on_search_change_fields)

lemma start_in_range: "focus_in_range (start apps)"
  by (cases apps) (simp_all add: focus_in_range_def start_def)


text \<open>
  The invariant of a run: the names never change, the visible names are among them, and
  the focus index is in range.
\<close>

lemma reachable_invariant:
  assumes "reachable popen apps s"
  shows "all_app_names s = map fst apps
       \<and> set (filtered_apps s) \<subseteq> set (all_app_names s) \<and> focus_in_range s"
  using assms
proof (induction rule: reachable.induct)
  case reachable_start
  show ?case by (simp add: start_def start_in_range[unfolded start_def])
next
  case (reachable_step s ev s')
  from reachable_step.IH have names: "all_app_names s = map fst apps"
    and sub: "set (filtered_apps s) \<subseteq> set (all_app_names s)"
    and rng: "focus_in_range s" by blast+
  show ?case
  proof (cases ev)
    case Key_up
    with reachable_step.hyps have m: "move_up s = Inr s'" by simp
    from move_fields(1)[OF m] move_up_in_range[OF m] names sub show ?thesis by metis
  next
    case Key_down
    with reachable_step.hyps have m: "move_down s = Inr s'" by simp
    from move_fields(2)[OF m] move_down_in_range[OF m] names sub show ?thesis by metis
  next
    case Key_enter
    with reachable_step.hyps have l: "launch popen s = Inr s'" by simp
    show ?thesis
    proof (cases "filtered_apps s = []")
      case True
      with l have "s' = s" by (simp add: launch_def launch_body_def)
      with reachable_step.IH show ?thesis by blast
    next
      case False
      from launch_fields(3)[OF l False] have "filtered_apps s' = all_app_names s" by blast
      with launch_fields(1)[OF l] launch_in_range[OF l] names show ?thesis by simp
    qed
  next
    case (Text_input v)
    with reachable_step.hyps have s': "s' = set_text v s" by simp
    from set_text_fields(1)[of v s] set_text_fields(2)[OF sub, of v] set_text_in_range[OF rng, of v]
      names
    show ?thesis unfolding s' by metis
  qed
qed

lemma moved_session_reachable: "reachable popen sample_apps moved_session"
proof -
  have "move_down (start sample_apps) = Inr moved_session"
    by (simp add: move_down_step moved_session_def start_def sample_apps_def)
  then have "handle popen Key_down (start sample_apps) = Inr moved_session" by simp
  with reachable_start show ?thesis by (rule reachable_step)
qed

lemma fire_session_reachable: "reachable popen sample_apps fire_session"
proof -
  have "handle popen (Text_input ''fire'') moved_session = Inr fire_session"
    by (simp add: fire_session_def)
  with moved_session_reachable show ?thesis by (rule reachable_step)
qed

lemma fire_session_fields:
  "filtered_apps fire_session = [''Firefox'']"
  "focus_index fire_session = 0"
  "search_text fire_session = ''fire''"
  "all_app_names fire_session = [''Firefox'', ''VLC'']"
  "app_dict fire_session ''Firefox'' = Some ''firefox %u''"
  "getitem (filtered_apps fire_session) (focus_index fire_session) = Inr ''Firefox''"
proof -
  show f: "filtered_apps fire_session = [''Firefox'']" by code_simp
  show i: "focus_index fire_session = 0" by code_simp
  show "search_text fire_session = ''fire''" by code_simp
  show "all_app_names fire_session = [''Firefox'', ''VLC'']" by code_simp
  show "app_dict fire_session ''Firefox'' = Some ''firefox %u''"
    by (simp add: fire_session_def set_text_def on_search_change_fields moved_session_def
        start_def sample_apps_def)
  show "getitem (filtered_apps fire_session) (focus_index fire_session) = Inr ''Firefox''"
    by (simp add: f i getitem_def)
qed

lemma clean_firefox: "clean_exec_cmd ''firefox %u'' = Inr [''firefox'']"
  by code_simp

text \<open>
  When \<open>launch\<close> returns in a state of a run with a focused name, it has reset the
  session: the query is empty, the visible list is the list of all names, and the focus
  index is 0. It returns exactly when neither the tokenizer nor the spawn raises.
\<close>

lemma launch_resets_when_it_returns:
  assumes "reachable popen apps s" and "filtered_apps s \<noteq> []"
    and "launch popen s = Inr s'"
  shows "search_text s' = [] \<and> filtered_apps s' = all_app_names s'
       \<and> all_app_names s' = map fst apps \<and> focus_index s' = 0"
proof -
  from reachable_invariant[OF assms(1)]
  have names: "all_app_names s = map fst apps"
    and sub: "set (filtered_apps s) \<subseteq> set (all_app_names s)" by blast+
  from sub assms(2) have ne: "all_app_names s \<noteq> []" by auto
  from launch_fields(1)[OF assms(3)] launch_fields(3)[OF assms(3,2)] ne names
  show ?thesis by simp
qed

lemma launch_returns_iff:
  assumes "reachable popen apps s" and "filtered_apps s \<noteq> []"
  shows "(\<exists>s'. launch popen s = Inr s') \<longleftrightarrow>
     \<not> attempt_raises popen (app_dict s (filtered_apps s ! nat (focus_index s)))"
proof -
  from reachable_invariant[OF assms(1)] assms(2)
  have "0 \<le> focus_index s" "focus_index s < int (length (filtered_apps s))"
    by (simp_all add: focus_in_range_def)
  then have g: "getitem (filtered_apps s) (focus_index s)
      = Inr (filtered_apps s ! nat (focus_index s))"
    by (rule getitem_in_range)
  show ?thesis
    using launch_result[OF assms(2) g, of popen] launch_raises[OF assms(2) g, of popen]
    by (cases "attempt_raises popen (app_dict s (filtered_apps s ! nat (focus_index s)))") auto
qed

text \<open>
  Claim C5, evaluated where the code breaks it. After one Down and the query \<open>fire\<close>
  the focused name is Firefox. When the spawn raises, \<open>show_error\<close> raises in the
  \<^verbatim>\<open>except\<close> block and the handler is left before the reset: the spawn has been
  requested, the query is still \<open>fire\<close> and the visible list still holds Firefox only.
\<close>

theorem failed_launch_skips_reset:
  "reachable popen_denied sample_apps fire_session
   \<and> search_text fire_session = ''fire''
   \<and> filtered_apps fire_session = [''Firefox'']
   \<and> all_app_names fire_session = [''Firefox'', ''VLC'']
   \<and> launch popen_denied fire_session = Inl RuntimeError
   \<and> launch_body popen_denied fire_session =
       (Some RuntimeError, fire_session\<lparr>effects := effects fire_session @ [Popen [''firefox'']]\<rparr>)"
proof -
  have ne: "filtered_apps fire_session \<noteq> []"
    by (simp add: fire_session_fields)
  have r: "attempt_raises popen_denied (app_dict fire_session ''Firefox'')"
    by (simp add: attempt_raises_def fire_session_fields clean_firefox popen_denied_def)
  have e: "attempt_effects (app_dict fire_session ''Firefox'') = [Popen [''firefox'']]"
    by (simp add: attempt_effects_def fire_session_fields clean_firefox)
  from launch_body_result[OF ne fire_session_fields(6), of popen_denied] r e
  have b: "launch_body popen_denied fire_session =
       (Some RuntimeError, fire_session\<lparr>effects := effects fire_session @ [Popen [''firefox'']]\<rparr>)"
    by simp
  from launch_raises[OF ne fire_session_fields(6) r] b fire_session_reachable[of popen_denied]
  show ?thesis by (simp add: fire_session_fields)
qed

text \<open>
  Claim C9. After a query change (\<open>on_search_change\<close>), a focus move and a launch,
  from any state, the focus index is in \<open>[0, len - 1]\<close> whenever the visible list is
  not empty; the moves always return. So it is in every state of a run.
\<close>

theorem focus_clamped:
  "focus_in_range (on_search_change s)
   \<and> (\<exists>s'. move_up s = Inr s' \<and> focus_in_range s')
   \<and> (\<exists>s'. move_down s = Inr s' \<and> focus_in_range s')
   \<and> (\<forall>s'. launch popen s = Inr s' \<longrightarrow> focus_in_range s')
   \<and> (reachable popen apps s \<longrightarrow> focus_in_range s)"
proof -
  have up: "\<exists>s'. move_up s = Inr s'"
    using move_up_step[of s] by (cases "filtered_apps s = []") (simp_all add: move_up_def)
  have down: "\<exists>s'. move_down s = Inr s'"
    using move_down_step[of s] by (cases "filtered_apps s = []") (simp_all add: move_down_def)
  from up down show ?thesis
    using on_search_change_in_range move_up_in_range move_down_in_range launch_in_range
      reachable_invariant by blast
qed

theorem focus_clamped_witness:
  "reachable popen_posix sample_apps fire_session
   \<and> focus_index moved_session = 1
   \<and> filtered_apps fire_session = [''Firefox'']
   \<and> focus_index fire_session = 0
   \<and> focus_in_range fire_session
   \<and> (\<exists>s'. launch popen_posix fire_session = Inr s' \<and> focus_in_range s')"
proof -
  have r: "reachable popen_posix sample_apps fire_session"
    by (rule fire_session_reachable)
  have m: "focus_index moved_session = 1"
    by (simp add: moved_session_def)
  have ne: "filtered_apps fire_session \<noteq> []"
    by (simp add: fire_session_fields)
  have "\<not> attempt_raises popen_posix (app_dict fire_session ''Firefox'')"
    by (simp add: attempt_raises_def fire_session_fields clean_firefox popen_posix_def)
  from launch_result[OF ne fire_session_fields(6) this]
  have l: "\<exists>s'. launch popen_posix fire_session = Inr s'" by simp
  from focus_clamped[of fire_session popen_posix sample_apps] r m l fire_session_fields(1,2)
  show ?thesis by blast
qed

lemma dom_fold_update:
  "dom (fold (\<lambda>(name, cmd) d. d(name \<mapsto> cmd)) apps m) = dom m \<union> fst ` set apps"
  by (induction apps arbitrary: m) (auto split: prod.splits)

lemma handle_app_dict:
  assumes "handle popen ev s = Inr s'"
  shows "app_dict s' = app_dict s"
proof (cases ev)
  case Key_up
  with assms move_up_step[of s] show ?thesis
    by (cases "filtered_apps s = []") (auto simp: move_up_def)
next
  case Key_down
  with assms move_down_step[of s] show ?thesis
    by (cases "filtered_apps s = []") (auto simp: move_down_def)
next
  case Key_enter
  with assms have "launch popen s = Inr s'" by simp
  then show ?thesis by (rule launch_fields(2))
next
  case (Text_input v)
  with assms show ?thesis
    by (auto simp: set_text_def on_search_change_fields)
qed

text \<open>
  In a run every visible name has an entry in \<open>app_dict\<close>: the lookup of
  \<open>launch\<close> does not miss.
\<close>

lemma lookup_never_misses:
  assumes "reachable popen apps s" and "name \<in> set (filtered_apps s)"
  shows "app_dict s name \<noteq> None"
proof -
  have d: "app_dict s = app_dict (start apps)"
    using assms(1)
    by (induction rule: reachable.induct) (simp_all add: handle_app_dict)
  from reachable_invariant[OF assms(1)] assms(2) have "name \<in> fst ` set apps" by auto
  then have "name \<in> dom (app_dict (start apps))"
    by (simp add: start_def dom_fold_update)
  with d show ?thesis by auto
qed

text \<open>
  Claim C3, as the code has it. When the command of the focused name is not empty and
  \<open>clean_exec_cmd\<close> yields the empty argument vector, \<open>launch\<close> makes no check for
  emptiness: the first call it makes is the process spawn with the empty vector as it
  is.
\<close>

theorem empty_argv_is_spawned:
  assumes "filtered_apps s \<noteq> []"
    and "getitem (filtered_apps s) (focus_index s) = Inr name"
    and "app_dict s name = Some cmd" and "cmd \<noteq> []"
    and "clean_exec_cmd cmd = Inr []"
  shows "\<exists>rest. effects (snd (launch_body popen s)) = effects s @ Popen [] # rest"
proof -
  have "attempt_effects (app_dict s name) = [Popen []]"
    using assms(3,4,5) by (simp add: attempt_effects_def)
  with launch_body_result[OF assms(1,2), of popen] show ?thesis
    by (cases "attempt_raises popen (app_dict s name)") simp_all
qed

theorem empty_argv_is_spawned_witness:
  "filtered_apps (start field_code_apps) \<noteq> []
   \<and> getitem (filtered_apps (start field_code_apps)) (focus_index (start field_code_apps))
       = Inr ''Viewer''
   \<and> app_dict (start field_code_apps) ''Viewer'' = Some ''%U''
   \<and> clean_exec_cmd ''%U'' = Inr []
   \<and> (\<exists>rest. effects (snd (launch_body popen_denied (start field_code_apps))) = Popen [] # rest)"
proof -
  have h1: "filtered_apps (start field_code_apps) \<noteq> []"
    by (simp add: start_def field_code_apps_def)
  have h2: "getitem (filtered_apps (start field_code_apps)) (focus_index (start field_code_apps))
       = Inr ''Viewer''"
    by (simp add: start_def field_code_apps_def getitem_def)
  have h3: "app_dict (start field_code_apps) ''Viewer'' = Some ''%U''"
    by (simp add: start_def field_code_apps_def)
  have h4: "''%U'' \<noteq> []" by simp
  have h5: "clean_exec_cmd ''%U'' = Inr []"
    by code_simp
  have e: "effects (start field_code_apps) = []"
    by (simp add: start_def)
  from empty_argv_is_spawned[OF h1 h2 h3 h4 h5, of popen_denied] h1 h2 h3 h5 e show ?thesis
    by simp
qed

theorem empty_argv_counterexample:
  "app_dict (start field_code_apps) ''Viewer'' = Some ''%U''
   \<and> clean_exec_cmd ''%U'' = Inr []
   \<and> launch_body popen_posix (start field_code_apps) =
       (Some RuntimeError, (start field_code_apps)\<lparr>effects := [Popen []]\<rparr>)"
proof -
  have h1: "filtered_apps (start field_code_apps) \<noteq> []"
    by (simp add: start_def field_code_apps_def)
  have h2: "getitem (filtered_apps (start field_code_apps)) (focus_index (start field_code_apps))
       = Inr ''Viewer''"
    by (simp add: start_def field_code_apps_def getitem_def)
  have h3: "app_dict (start field_code_apps) ''Viewer'' = Some ''%U''"
    by (simp add: start_def field_code_apps_def)
  have h5: "clean_exec_cmd ''%U'' = Inr []"
    by code_simp
  have r: "attempt_raises popen_posix (app_dict (start field_code_apps) ''Viewer'')"
    by (simp add: h3 h5 attempt_raises_def popen_posix_def)
  have e: "attempt_effects (app_dict (start field_code_apps) ''Viewer'') = [Popen []]"
    by (simp add: h3 h5 attempt_effects_def)
  from launch_body_result[OF h1 h2, of popen_posix] r e h3 h5 show ?thesis
    by (simp add: start_def)
qed

section \<open>Filtering\<close>

text \<open>
  Claim C4, as the code has it. After \<open>on_search_change\<close> the visible list is the list
  of all names filtered, in its order, by: the query with leading and trailing white
  space stripped and lower-cased occurs in the lower-cased name as a contiguous run.
  So a name is visible if and only if it is an indexed name for which that holds, and
  a query that strips to the empty string shows all names.
\<close>

theorem filter_by_stripped_query:
  "filtered_apps (on_search_change s) =
     filter (\<lambda>name. sublist (lower (strip (search_text s))) (lower name)) (all_app_names s)
   \<and> (name \<in> set (filtered_apps (on_search_change s)) \<longleftrightarrow>
        name \<in> set (all_app_names s) \<and> sublist (lower (strip (search_text s))) (lower name))
   \<and> (strip (search_text s) = [] \<longrightarrow> filtered_apps (on_search_change s) = all_app_names s)"
  by (simp add: on_search_change_fields str_contains_sublist lower_empty)

theorem filter_by_stripped_query_witness:
  "strip (search_text (start sample_apps)) = []
   \<and> filtered_apps (on_search_change (start sample_apps)) = [''Firefox'', ''VLC'']
   \<and> all_app_names (start sample_apps) = [''Firefox'', ''VLC'']"
proof -
  have h: "strip (search_text (start sample_apps)) = []"
    by (simp add: start_def strip_def)
  have n: "all_app_names (start sample_apps) = [''Firefox'', ''VLC'']"
    by (simp add: start_def sample_apps_def)
  from filter_by_stripped_query[of "start sample_apps" "''Firefox''"] h
  have "filtered_apps (on_search_change (start sample_apps)) = all_app_names (start sample_apps)"
    by blast
  with h n show ?thesis by simp
qed

theorem filter_counterexample:
  "\<not> str_contains (lower ''fire '') (lower ''Firefox'')
   \<and> filtered_apps (set_text ''fire '' (start sample_apps)) = [''Firefox'']"
proof -
  have "\<not> str_contains (lower ''fire '') (lower ''Firefox'')"
    by code_simp
  moreover have "filtered_apps (set_text ''fire '' (start sample_apps)) = [''Firefox'']"
    by code_simp
  ultimately show ?thesis by blast
qed

section \<open>The descriptor scanner\<close>

lemma list_apps_fold:
  "list_apps system_dir user_dir =
     fold scan_file
       ((case system_dir of None \<Rightarrow> [] | Some files \<Rightarrow> files)
          @ (case user_dir of None \<Rightarrow> [] | Some files \<Rightarrow> files)) []"
  by (simp add: list_apps_def split: option.splits)

text \<open>
  Claim C1, as the code has it. The index is built by \<open>scan_file\<close> over the files of
  the directories that exist. A file adds the entry \<open>(name, exec)\<close> if and only if its
  name ends in \<open>.desktop\<close>, it is read without an exception, Name is present with the
  non-empty value \<open>name\<close>, Exec is present with the non-empty value \<open>exec\<close>, and
  NoDisplay lower-cased is not \<open>true\<close>; any other file leaves the index as it was.
\<close>

theorem inclusion_rule:
  "(scan_file (filename, parsed) apps = apps @ [(name, exec)] \<longleftrightarrow>
      endswith filename ''.desktop''
      \<and> (\<exists>config. parsed = Some config
            \<and> config ''Desktop Entry'' ''Name'' = Some name \<and> name \<noteq> []
            \<and> config ''Desktop Entry'' ''Exec'' = Some exec \<and> exec \<noteq> []
            \<and> lower (case config ''Desktop Entry'' ''NoDisplay'' of
                        None \<Rightarrow> ''false'' | Some v \<Rightarrow> v) \<noteq> ''true''))
   \<and> (scan_file (filename, parsed) apps = apps
        \<or> (\<exists>n e. scan_file (filename, parsed) apps = apps @ [(n, e)]))
   \<and> list_apps system_dir user_dir =
       fold scan_file
         ((case system_dir of None \<Rightarrow> [] | Some files \<Rightarrow> files)
            @ (case user_dir of None \<Rightarrow> [] | Some files \<Rightarrow> files)) []"
proof -
  have a: "scan_file (filename, parsed) apps = apps @ [(name, exec)] \<longleftrightarrow>
      endswith filename ''.desktop''
      \<and> (\<exists>config. parsed = Some config
            \<and> config ''Desktop Entry'' ''Name'' = Some name \<and> name \<noteq> []
            \<and> config ''Desktop Entry'' ''Exec'' = Some exec \<and> exec \<noteq> []
            \<and> lower (case config ''Desktop Entry'' ''NoDisplay'' of
                        None \<Rightarrow> ''false'' | Some v \<Rightarrow> v) \<noteq> ''true'')"
  proof (cases parsed)
    case None
    then show ?thesis by (simp add: scan_file_def)
  next
    case (Some config)
    show ?thesis
    proof (cases "config ''Desktop Entry'' ''Name''")
      case None
      with Some show ?thesis
        by (simp add: scan_file_def config_get_def Let_def)
    next
      case n: (Some n)
      show ?thesis
      proof (cases "config ''Desktop Entry'' ''Exec''")
        case None
        with Some n show ?thesis
          by (simp add: scan_file_def config_get_def Let_def)
      next
        case e: (Some e)
        with Some n show ?thesis
          by (auto simp: scan_file_def config_get_def config_get_fallback_def Let_def)
      qed
    qed
  qed
  have b: "scan_file (filename, parsed) apps = apps
        \<or> (\<exists>n e. scan_file (filename, parsed) apps = apps @ [(n, e)])"
    by (simp add: scan_file_def Let_def split: option.splits)
  from a b list_apps_fold show ?thesis by blast
qed

theorem inclusion_rule_witness:
  "endswith ''firefox.desktop'' ''.desktop''
   \<and> firefox_config ''Desktop Entry'' ''Name'' = Some ''Firefox''
   \<and> firefox_config ''Desktop Entry'' ''Exec'' = Some ''firefox %u''
   \<and> firefox_config ''Desktop Entry'' ''NoDisplay'' = None
   \<and> scan_file (''firefox.desktop'', Some firefox_config) [] = [(''Firefox'', ''firefox %u'')]"
proof -
  have e: "endswith ''firefox.desktop'' ''.desktop''"
    by (simp add: endswith_def)
  have n: "firefox_config ''Desktop Entry'' ''Name'' = Some ''Firefox''"
    by (simp add: firefox_config_def desktop_entry_def)
  have x: "firefox_config ''Desktop Entry'' ''Exec'' = Some ''firefox %u''"
    by (simp add: firefox_config_def desktop_entry_def)
  have d: "firefox_config ''Desktop Entry'' ''NoDisplay'' = None"
    by (simp add: firefox_config_def desktop_entry_def)
  have l: "lower ''false'' \<noteq> ''true''"
    by code_simp
  from inclusion_rule[of "''firefox.desktop''" "Some firefox_config" "[]"
      "''Firefox''" "''firefox %u''"] e n x d l
  show ?thesis by simp
qed

theorem inclusion_counterexample:
  "config_get editor_config ''Desktop Entry'' ''Name'' = Some ''Editor''
   \<and> config_get editor_config ''Desktop Entry'' ''Exec'' = Some []
   \<and> lower (config_get_fallback editor_config ''Desktop Entry'' ''NoDisplay'' ''false'')
       = ''false''
   \<and> list_apps scenario_dir None = [(''Firefox'', ''firefox %u'')]"
proof -
  have "config_get editor_config ''Desktop Entry'' ''Name'' = Some ''Editor''"
    by (simp add: config_get_def editor_config_def desktop_entry_def)
  moreover have "config_get editor_config ''Desktop Entry'' ''Exec'' = Some []"
    by (simp add: config_get_def editor_config_def desktop_entry_def)
  moreover have "lower (config_get_fallback editor_config ''Desktop Entry'' ''NoDisplay'' ''false'')
       = ''false''"
    by code_simp
  moreover have "list_apps scenario_dir None = [(''Firefox'', ''firefox %u'')]"
    by code_simp
  ultimately show ?thesis by blast
qed

end
